theory Spec2Isabelle
  imports Main "HOL-Library.Word"
begin

section \<open>Remote buzzer activation over ESP-NOW\<close>

text \<open>
  Two sketches: the receiver (ESPReciever.ino, "Broadcast Slave") drives a buzzer for a
  fixed time after a frame arrives; the transmitter ("Broadcast Master") broadcasts one
  message per button press. Both are embedded with explicit state passing. The clock
  \<open>millis()\<close> and the answers of the radio library (\<open>add()\<close>, \<open>send()\<close>) are inputs of
  the model. The receive callbacks and \<open>loop\<close> run in different tasks on the device;
  each is embedded as one operation on the state, and the statements below are about one
  operation or about operations that follow one another.
\<close>

subsection \<open>Common data\<close>

datatype level = LOW | HIGH

text \<open>\<open>unsigned long\<close> and \<open>uint32_t\<close> are 32 bits wide on the ESP32.\<close>

type_synonym ulong = "32 word"
type_synonym mac = "8 word list"

definition BROADCAST_ADDR :: mac where
  "BROADCAST_ADDR = [0xFF, 0xFF, 0xFF, 0xFF, 0xFF, 0xFF]"

text \<open>\<open>memcmp(a, b, 6) == 0\<close>: the first six bytes agree.\<close>

definition memcmp6_eq :: "mac \<Rightarrow> mac \<Rightarrow> bool" where
  "memcmp6_eq a b = (take 6 a = take 6 b)"

subsection \<open>Receiver\<close>

definition BUZZER_DURATION :: ulong where
  "BUZZER_DURATION = 1000"

text \<open>
  The globals of the sketch, the level last written to \<open>BUZZER_PIN\<close>, the static
  \<open>last_debug\<close> of \<open>loop\<close>, and the peer table kept by the radio library (the addresses
  for which \<open>add()\<close> succeeded).
\<close>

record receiver =
  buzzer_pin :: level
  buzzer_timer :: ulong
  buzzer_active :: bool
  masters :: "mac list"
  peer_table :: "mac list"
  last_debug :: ulong

text \<open>After \<open>setup()\<close>: pin written LOW, no master, globals at their initialisers.\<close>

definition rx_init :: receiver where
  "rx_init = \<lparr>buzzer_pin = LOW, buzzer_timer = 0, buzzer_active = False,
              masters = [], peer_table = [], last_debug = 0\<rparr>"

text \<open>The frame as the callbacks see it: \<open>info->src_addr\<close>, \<open>info->des_addr\<close>, the payload.\<close>

record frame =
  src_addr :: mac
  des_addr :: mac
  payload :: "8 word list"

text \<open>
  \<open>ESP_NOW_Peer_Class::onReceive(data, len, broadcast)\<close>; \<open>now\<close> is the value
  \<open>millis()\<close> returns. The two \<open>Serial.printf\<close> calls only log.
\<close>

definition onReceive :: "receiver \<Rightarrow> 8 word list \<Rightarrow> nat \<Rightarrow> bool \<Rightarrow> ulong \<Rightarrow> receiver" where
  "onReceive s data len broadcast now =
     s\<lparr>buzzer_pin := HIGH, buzzer_timer := now, buzzer_active := True\<rparr>"

text \<open>
  \<open>ESP_NOW_Peer_Class::add_peer()\<close> wraps the library's \<open>add()\<close>. Whether the radio
  accepts the peer is the input \<open>accepted\<close>; an accepted address enters the library's
  peer table.
\<close>

definition add_peer :: "receiver \<Rightarrow> mac \<Rightarrow> bool \<Rightarrow> bool \<times> receiver" where
  "add_peer s addr accepted =
     (if \<not> accepted then (False, s)
      else (True, s\<lparr>peer_table := peer_table s @ [addr]\<rparr>))"

text \<open>\<open>register_new_master(info, data, len, arg)\<close>, the new-peer callback.\<close>

definition register_new_master :: "receiver \<Rightarrow> frame \<Rightarrow> bool \<Rightarrow> ulong \<Rightarrow> receiver" where
  "register_new_master s f accepted now =
     (if memcmp6_eq (des_addr f) BROADCAST_ADDR then
        (case add_peer s (src_addr f) accepted of
           (False, s1) \<Rightarrow> s1
         | (True, s1) \<Rightarrow>
             s1\<lparr>masters := masters s1 @ [src_addr f],
                buzzer_pin := HIGH, buzzer_timer := now, buzzer_active := True\<rparr>)
      else s)"

text \<open>
  One iteration of \<open>loop()\<close>. The reads of \<open>millis()\<close> within one iteration are taken as
  one clock value \<open>now\<close>; the comparison is on \<open>unsigned long\<close>, so the subtraction wraps.
\<close>

definition loop :: "receiver \<Rightarrow> ulong \<Rightarrow> receiver" where
  "loop s now =
     (let s1 = (if buzzer_active s \<and> now - buzzer_timer s > BUZZER_DURATION
                then s\<lparr>buzzer_pin := LOW, buzzer_active := False\<rparr> else s)
      in if now - last_debug s1 > 10000 then s1\<lparr>last_debug := now\<rparr> else s1)"

text \<open>Successive iterations of \<open>loop()\<close> at the given clock values.\<close>

fun polls :: "receiver \<Rightarrow> ulong list \<Rightarrow> receiver" where
  "polls s [] = s"
| "polls s (t # ts) = polls (loop s t) ts"

text \<open>
  Modelled from the spec: the receive dispatch of the radio library (ESP32_NOW, not part
  of the sources), which decides the callback a frame goes to. Section 4.2: a frame whose
  source is a registered peer goes to that peer's \<open>onReceive\<close>, with the flag telling
  whether the destination is the broadcast address; a frame from an unknown source goes
  to the callback installed with \<open>ESP_NOW.onNewPeer\<close>, here \<open>register_new_master\<close>.
\<close>

definition rx_dispatch :: "receiver \<Rightarrow> frame \<Rightarrow> bool \<Rightarrow> ulong \<Rightarrow> receiver" where
  "rx_dispatch s f accepted now =
     (if src_addr f \<in> set (peer_table s)
      then onReceive s (payload f) (length (payload f))
             (memcmp6_eq (des_addr f) BROADCAST_ADDR) now
      else register_new_master s f accepted now)"

text \<open>
  A sequence of frames arriving at the receiver, each with the answer \<open>add()\<close> would
  give for its source and the clock value at its arrival.
\<close>

fun rx_frames :: "receiver \<Rightarrow> (frame \<times> bool \<times> ulong) list \<Rightarrow> receiver" where
  "rx_frames s [] = s"
| "rx_frames s ((f, accepted, now) # fs) = rx_frames (rx_dispatch s f accepted now) fs"

subsection \<open>Transmitter\<close>

record transmitter =
  msg_count :: "32 word"
  lastButtonState :: level

definition tx_init :: transmitter where
  "tx_init = \<lparr>msg_count = 0, lastButtonState = HIGH\<rparr>"

text \<open>What \<open>%lu\<close> prints: the decimal digits of the value.\<close>

definition digit_char :: "nat \<Rightarrow> char" where
  "digit_char d = char_of (48 + d)"

fun show_dec :: "nat \<Rightarrow> string" where
  "show_dec n = (if n < 10 then [digit_char n]
                 else show_dec (n div 10) @ [digit_char (n mod 10)])"

text \<open>
  \<open>snprintf(data, sizeof(data), "Button Pressed! #%lu", c)\<close> with \<open>char data[32]\<close>: at most
  31 characters before the terminating NUL.
\<close>

definition snprintf_data :: "32 word \<Rightarrow> string" where
  "snprintf_data c = take 31 (''Button Pressed! #'' @ show_dec (unat c))"

text \<open>
  One call of \<open>broadcast_peer.send_message\<close>: the counter value formatted into the
  message, the text in the buffer (the bytes after its NUL are whatever the stack held),
  and what the call returned.
\<close>

record attempt =
  seq :: "32 word"
  text_sent :: string
  delivered :: bool

text \<open>
  One iteration of the transmitter's \<open>loop()\<close>. \<open>cur\<close> is what \<open>digitalRead(BUTTON_PIN)\<close>
  returns, \<open>send_ok\<close> what the radio's \<open>send\<close> would return. The result is the new
  state, the send attempted in this iteration (if any), and the milliseconds spent in
  \<open>delay\<close>. A failed send only logs.
\<close>

definition tx_loop :: "transmitter \<Rightarrow> level \<Rightarrow> bool \<Rightarrow> transmitter \<times> attempt option \<times> nat" where
  "tx_loop st cur send_ok =
     (if lastButtonState st = HIGH \<and> cur = LOW then
        (let c = msg_count st + 1
         in (\<lparr>msg_count = c, lastButtonState = cur\<rparr>,
             Some \<lparr>seq = c, text_sent = snprintf_data c, delivered = send_ok\<rparr>,
             250))
      else (st\<lparr>lastButtonState := cur\<rparr>, None, 0))"

text \<open>
  The transmitter running from time \<open>t\<close> (milliseconds) up to, not including, time
  \<open>T\<close>. \<open>sig u\<close> is the level of the button pin at time \<open>u\<close>, \<open>ok u\<close> the answer of the
  radio to a send at time \<open>u\<close>. An iteration that does not send takes one millisecond; one
  that sends blocks in \<open>delay(250)\<close> and the pin is next read 250 ms later. The result
  lists the send attempts with their times.
\<close>

function tx_run ::
  "(nat \<Rightarrow> level) \<Rightarrow> (nat \<Rightarrow> bool) \<Rightarrow> nat \<Rightarrow> nat \<Rightarrow> transmitter \<Rightarrow> (nat \<times> attempt) list" where
  "tx_run sig ok T t st =
     (if T \<le> t then []
      else (let r = tx_loop st (sig t) (ok t)
            in (case fst (snd r) of None \<Rightarrow> [] | Some a \<Rightarrow> [(t, a)])
               @ tx_run sig ok T (t + max 1 (snd (snd r))) (fst r)))"
  by pat_completeness auto
termination
  by (relation "measure (\<lambda>(sig, ok, T, t, st). T - t)") auto

declare tx_run.simps [simp del]
declare show_dec.simps [simp del]

text \<open>Consecutive times at least 250 ms apart.\<close>

fun debounced :: "nat list \<Rightarrow> bool" where
  "debounced (a # b # ts) = (a + 250 \<le> b \<and> debounced (b # ts))"
| "debounced ts = True"

subsection \<open>Auxiliary notions and sample inputs\<close>

text \<open>
  The source addresses of the broadcast frames in a sequence whose registration the
  radio would accept.
\<close>

fun accepted_sources :: "(frame \<times> bool \<times> ulong) list \<Rightarrow> mac list" where
  "accepted_sources [] = []"
| "accepted_sources ((f, accepted, now) # fs) =
     (if accepted \<and> memcmp6_eq (des_addr f) BROADCAST_ADDR then [src_addr f] else [])
     @ accepted_sources fs"

text \<open>The masters list mirrors the library's peer table and has no repeated address.\<close>

definition registry_ok :: "receiver \<Rightarrow> bool" where
  "registry_ok s = (peer_table s = masters s \<and> distinct (masters s))"

text \<open>The pin is HIGH exactly while the flag is set.\<close>

definition pin_follows_flag :: "receiver \<Rightarrow> bool" where
  "pin_follows_flag s = ((buzzer_pin s = HIGH) = buzzer_active s)"

definition frame_X :: frame where
  "frame_X = \<lparr>src_addr = [0x24, 0x6F, 0x28, 0x01, 0x02, 0x03],
               des_addr = BROADCAST_ADDR, payload = []\<rparr>"

definition frame_X_unicast :: frame where
  "frame_X_unicast = \<lparr>src_addr = [0x24, 0x6F, 0x28, 0x01, 0x02, 0x03],
                       des_addr = [0x10, 0x20, 0x30, 0x40, 0x50, 0x60], payload = []\<rparr>"

definition frame_Y :: frame where
  "frame_Y = \<lparr>src_addr = [0x24, 0x6F, 0x28, 0x0A, 0x0B, 0x0C],
               des_addr = BROADCAST_ADDR, payload = [0x42]\<rparr>"

text \<open>
  A bouncing press: the pin falls at 0, bounces back up from 20 to 49 and falls again at
  50, then stays low.
\<close>

definition bouncy :: "nat \<Rightarrow> level" where
  "bouncy u = (if u < 20 \<or> 50 \<le> u then LOW else HIGH)"

text \<open>Two presses: the pin is low except at time 250.\<close>

definition press_twice :: "nat \<Rightarrow> level" where
  "press_twice u = (if u = 250 then HIGH else LOW)"

subsection \<open>Facts about the receiver\<close>

lemma loop_fields [simp]:
  "buzzer_timer (loop s now) = buzzer_timer s"
  "masters (loop s now) = masters s"
  "peer_table (loop s now) = peer_table s"
  by (simp_all add: loop_def Let_def)

lemma loop_active:
  "buzzer_active (loop s now) = (buzzer_active s \<and> now - buzzer_timer s \<le> BUZZER_DURATION)"
  by (auto simp: loop_def Let_def)

lemma loop_pin:
  "buzzer_pin (loop s now) =
     (if buzzer_active s \<and> now - buzzer_timer s > BUZZER_DURATION then LOW else buzzer_pin s)"
  by (auto simp: loop_def Let_def)

lemma polls_fields [simp]:
  "buzzer_timer (polls s ts) = buzzer_timer s"
  "masters (polls s ts) = masters s"
  "peer_table (polls s ts) = peer_table s"
  by (induction ts arbitrary: s) simp_all

lemma polls_active:
  "buzzer_active (polls s ts) =
     (buzzer_active s \<and> (\<forall>t\<in>set ts. t - buzzer_timer s \<le> BUZZER_DURATION))"
  by (induction ts arbitrary: s) (auto simp: loop_active)

text \<open>Every operation keeps the pin in step with the flag.\<close>

lemma pin_follows_flag_loop: "pin_follows_flag s \<Longrightarrow> pin_follows_flag (loop s now)"
  by (auto simp: pin_follows_flag_def loop_def Let_def)

lemma pin_follows_flag_polls: "pin_follows_flag s \<Longrightarrow> pin_follows_flag (polls s ts)"
  by (induction ts arbitrary: s) (simp_all add: pin_follows_flag_loop)

lemma pin_follows_flag_onReceive: "pin_follows_flag (onReceive s d l b now)"
  by (simp add: pin_follows_flag_def onReceive_def)

lemma memcmp_samples [simp]:
  "memcmp6_eq (des_addr frame_X) BROADCAST_ADDR"
  "memcmp6_eq (des_addr frame_Y) BROADCAST_ADDR"
  "\<not> memcmp6_eq (des_addr frame_X_unicast) BROADCAST_ADDR"
  by (simp_all add: frame_X_def frame_Y_def frame_X_unicast_def memcmp6_eq_def BROADCAST_ADDR_def)

lemma polls_start_window:
  assumes "buzzer_active s1" "buzzer_pin s1 = HIGH" "buzzer_timer s1 = now"
    and "\<forall>t\<in>set ts. t - now \<le> BUZZER_DURATION" and "BUZZER_DURATION < t' - now"
  shows "buzzer_active (polls s1 ts) \<and> buzzer_pin (polls s1 ts) = HIGH
         \<and> \<not> buzzer_active (loop (polls s1 ts) t') \<and> buzzer_pin (loop (polls s1 ts) t') = LOW"
proof -
  have a: "buzzer_active (polls s1 ts)" using assms by (simp add: polls_active)
  have "pin_follows_flag s1" using assms by (simp add: pin_follows_flag_def)
  then have "pin_follows_flag (polls s1 ts)" by (rule pin_follows_flag_polls)
  with a have p: "buzzer_pin (polls s1 ts) = HIGH" by (simp add: pin_follows_flag_def)
  from a assms(3,5) have "\<not> buzzer_active (loop (polls s1 ts) t')"
    by (simp add: loop_active not_le)
  moreover from a assms(3,5) have "buzzer_pin (loop (polls s1 ts) t') = LOW"
    by (simp add: loop_pin)
  ultimately show ?thesis using a p by simp
qed

lemma elapsed_unwrapped:
  fixes start :: ulong
  assumes "e < 2 ^ 32"
  shows "(BUZZER_DURATION < start + of_nat e - start) = (1000 < e)"
proof -
  have "unat (of_nat e :: ulong) = e" using assms by (simp add: unat_of_nat)
  then show ?thesis by (simp add: word_less_nat_alt BUZZER_DURATION_def)
qed

lemma count_list_distinct:
  "distinct xs \<Longrightarrow> count_list xs a = (if a \<in> set xs then 1 else 0)"
  by (induction xs) auto

lemma registry_ok_dispatch: "registry_ok s \<Longrightarrow> registry_ok (rx_dispatch s f acc now)"
  by (auto simp: registry_ok_def rx_dispatch_def onReceive_def register_new_master_def
        add_peer_def)

lemma masters_dispatch:
  "registry_ok s \<Longrightarrow>
     set (masters (rx_dispatch s f acc now))
       = set (masters s) \<union> set (accepted_sources [(f, acc, now)])"
  by (auto simp: registry_ok_def rx_dispatch_def onReceive_def register_new_master_def
        add_peer_def)

lemma registry_frames:
  "registry_ok s \<Longrightarrow>
     registry_ok (rx_frames s fs)
     \<and> set (masters (rx_frames s fs)) = set (masters s) \<union> set (accepted_sources fs)"
proof (induction fs arbitrary: s)
  case Nil
  then show ?case by simp
next
  case (Cons x fs)
  obtain f acc now where x: "x = (f, acc, now)" by (cases x)
  from Cons.prems have ok: "registry_ok (rx_dispatch s f acc now)"
    by (rule registry_ok_dispatch)
  from Cons.IH [OF ok] masters_dispatch [OF Cons.prems, of f acc now] x
  show ?case by auto
qed

subsection \<open>Claims about the receiver\<close>

text \<open>
  C1. A frame that arrives while the buzzer is on (or off) sets \<open>buzzer_timer\<close> to the
  current time, in \<open>onReceive\<close> and in \<open>register_new_master\<close> alike, so the window runs
  from the most recent start: every later poll whose elapsed time since that start is at
  most \<open>BUZZER_DURATION\<close> leaves the output on, whatever deadline an earlier start had
  set, and a poll past it turns the output off. With the starts at 0 and 500 the output is
  still on at the polls at 1000 and 1500; the first poll after 1500 turns it off.
\<close>

theorem rearm_extends_window:
  assumes "\<forall>t\<in>set ts. t - now \<le> BUZZER_DURATION" and "BUZZER_DURATION < t' - now"
    and "s1 = onReceive s d l b now
         \<or> (memcmp6_eq (des_addr f) BROADCAST_ADDR \<and> s1 = register_new_master s f True now)"
  shows "buzzer_timer s1 = now
         \<and> buzzer_active (polls s1 ts) \<and> buzzer_pin (polls s1 ts) = HIGH
         \<and> \<not> buzzer_active (loop (polls s1 ts) t') \<and> buzzer_pin (loop (polls s1 ts) t') = LOW"
proof -
  from assms(3) have "buzzer_active s1 \<and> buzzer_pin s1 = HIGH \<and> buzzer_timer s1 = now"
    by (auto simp: onReceive_def register_new_master_def add_peer_def)
  with polls_start_window [of s1 now ts t'] assms(1,2) show ?thesis by simp
qed

theorem rearm_extends_window_witness:
  "buzzer_active (register_new_master rx_init frame_X True 0)
   \<and> buzzer_timer (register_new_master rx_init frame_X True 0) = 0
   \<and> buzzer_timer (onReceive (register_new_master rx_init frame_X True 0) [] 0 True 500) = 500
   \<and> buzzer_active (polls (onReceive (register_new_master rx_init frame_X True 0) [] 0 True 500)
        [510, 1000, 1010, 1500])
   \<and> buzzer_pin (polls (onReceive (register_new_master rx_init frame_X True 0) [] 0 True 500)
        [510, 1000, 1010, 1500]) = HIGH
   \<and> \<not> buzzer_active
        (loop (polls (onReceive (register_new_master rx_init frame_X True 0) [] 0 True 500)
           [510, 1000, 1010, 1500]) 1501)"
proof -
  have a: "\<forall>t\<in>set [510, 1000, 1010, 1500 :: ulong]. t - 500 \<le> BUZZER_DURATION"
    by (simp add: BUZZER_DURATION_def)
  have b: "BUZZER_DURATION < (1501 :: ulong) - 500" by (simp add: BUZZER_DURATION_def)
  have c: "buzzer_active (register_new_master rx_init frame_X True 0)
     \<and> buzzer_timer (register_new_master rx_init frame_X True 0) = 0"
    by (simp add: register_new_master_def add_peer_def)
  from rearm_extends_window [OF a b,
        of "onReceive (register_new_master rx_init frame_X True 0) [] 0 True 500"
        "register_new_master rx_init frame_X True 0" "[]" 0 True] c
  show ?thesis by simp
qed

text \<open>
  C2, as stated: a broadcast frame from an unknown address whose registration is rejected
  still turns the buzzer on. It does not: \<open>register_new_master\<close> returns right after the
  failed \<open>add_peer\<close>, before the pin is written. The same frame with the registration
  accepted does turn it on.
\<close>

theorem rejected_registration_not_actuated:
  "memcmp6_eq (des_addr frame_X) BROADCAST_ADDR
   \<and> src_addr frame_X \<notin> set (peer_table rx_init)
   \<and> buzzer_pin (register_new_master rx_init frame_X False 0) = LOW
   \<and> \<not> buzzer_active (register_new_master rx_init frame_X False 0)
   \<and> buzzer_pin (register_new_master rx_init frame_X True 0) = HIGH
   \<and> buzzer_active (register_new_master rx_init frame_X True 0)"
  by (simp add: register_new_master_def add_peer_def rx_init_def)

text \<open>
  C2, amended: when the radio rejects the registration, \<open>register_new_master\<close> leaves the
  whole receiver state as it was: pin, timer, flag and masters list. A frame from an
  unknown address therefore has no effect at all in that case; the buzzer is started
  only when the registration succeeds.
\<close>

theorem rejected_registration_no_effect:
  "register_new_master s f False now = s
   \<and> (memcmp6_eq (des_addr f) BROADCAST_ADDR \<longrightarrow>
        buzzer_active (register_new_master s f True now)
        \<and> buzzer_pin (register_new_master s f True now) = HIGH
        \<and> buzzer_timer (register_new_master s f True now) = now)"
  by (simp add: register_new_master_def add_peer_def)

theorem rejected_registration_no_effect_witness:
  "memcmp6_eq (des_addr frame_X) BROADCAST_ADDR
   \<and> register_new_master rx_init frame_X False 5 = rx_init
   \<and> \<not> buzzer_active (register_new_master rx_init frame_X False 5)
   \<and> buzzer_active (register_new_master rx_init frame_X True 5)"
  using rejected_registration_no_effect [of rx_init frame_X 5]
  by (simp add: rx_init_def)

text \<open>
  C3, as stated: after a poll, \<open>active\<close> equals \<open>now - activation_time < duration\<close>, so the
  output is off once the elapsed time equals the duration. After a start at 0, the poll at
  1000 leaves the buzzer on although 1000 - 0 is not below 1000: \<open>loop\<close> compares with
  \<open>>\<close>.
\<close>

theorem loop_still_active_at_duration:
  "buzzer_active (loop (onReceive rx_init [] 0 True 0) 1000)
   \<and> buzzer_pin (loop (onReceive rx_init [] 0 True 0) 1000) = HIGH
   \<and> \<not> (1000 - buzzer_timer (loop (onReceive rx_init [] 0 True 0) 1000) < BUZZER_DURATION)"
  by (simp add: loop_def onReceive_def rx_init_def BUZZER_DURATION_def)

text \<open>
  C3, amended: a poll at \<open>now\<close> turns the output off and clears the flag exactly when the
  flag is set and \<open>now - buzzer_timer\<close> exceeds \<open>BUZZER_DURATION\<close>; otherwise pin and flag
  stay as they are. So after every poll the flag implies that the elapsed time is at most
  the duration, and at elapsed = duration the output is still on.
\<close>

theorem loop_deactivates_after_duration:
  "buzzer_active (loop s now) = (buzzer_active s \<and> now - buzzer_timer s \<le> BUZZER_DURATION)
   \<and> (buzzer_active (loop s now) \<longrightarrow> now - buzzer_timer (loop s now) \<le> BUZZER_DURATION)
   \<and> (buzzer_active s \<and> now - buzzer_timer s > BUZZER_DURATION \<longrightarrow>
        buzzer_pin (loop s now) = LOW \<and> \<not> buzzer_active (loop s now))
   \<and> (\<not> (buzzer_active s \<and> now - buzzer_timer s > BUZZER_DURATION) \<longrightarrow>
        buzzer_pin (loop s now) = buzzer_pin s \<and> buzzer_active (loop s now) = buzzer_active s)"
  by (auto simp: loop_active loop_pin)

theorem loop_deactivates_after_duration_witness:
  "buzzer_active (onReceive rx_init [] 0 True 0)
   \<and> 1001 - buzzer_timer (onReceive rx_init [] 0 True 0) > BUZZER_DURATION
   \<and> buzzer_pin (loop (onReceive rx_init [] 0 True 0) 1001) = LOW
   \<and> \<not> buzzer_active (loop (onReceive rx_init [] 0 True 0) 1001)
   \<and> \<not> 1000 - buzzer_timer (onReceive rx_init [] 0 True 0) > BUZZER_DURATION
   \<and> buzzer_pin (loop (onReceive rx_init [] 0 True 0) 1000) = HIGH
   \<and> buzzer_active (loop (onReceive rx_init [] 0 True 0) 1000)
   \<and> 1000 - buzzer_timer (loop (onReceive rx_init [] 0 True 0) 1000) \<le> BUZZER_DURATION"
  using loop_deactivates_after_duration [of "onReceive rx_init [] 0 True 0" 1001]
    loop_deactivates_after_duration [of "onReceive rx_init [] 0 True 0" 1000]
  by (simp add: onReceive_def rx_init_def BUZZER_DURATION_def)

text \<open>
  C4, as stated: after any sequence of broadcast frames the registry holds exactly one
  entry for each distinct source address. A single broadcast frame from an address whose
  registration the radio rejects leaves no entry for that address, neither in the masters
  list nor in the peer table.
\<close>

theorem rejected_source_has_no_entry:
  "memcmp6_eq (des_addr frame_X) BROADCAST_ADDR
   \<and> count_list (masters (rx_frames rx_init [(frame_X, False, 0)])) (src_addr frame_X) = 0
   \<and> count_list (peer_table (rx_frames rx_init [(frame_X, False, 0)])) (src_addr frame_X) = 0"
  by (simp add: rx_dispatch_def register_new_master_def add_peer_def rx_init_def)

text \<open>
  C4, amended: after any sequence of frames received from start-up, the masters list has
  no repeated address and equals the radio's peer table, and it holds exactly the source
  addresses of the broadcast frames whose registration was accepted: one entry for each
  of those, none for any other address.
\<close>

theorem registry_one_entry_per_accepted_source:
  "distinct (masters (rx_frames rx_init fs))
   \<and> peer_table (rx_frames rx_init fs) = masters (rx_frames rx_init fs)
   \<and> set (masters (rx_frames rx_init fs)) = set (accepted_sources fs)
   \<and> count_list (masters (rx_frames rx_init fs)) a
       = (if a \<in> set (accepted_sources fs) then 1 else 0)"
proof -
  have "registry_ok rx_init" by (simp add: registry_ok_def rx_init_def)
  from registry_frames [OF this, of fs]
  have r: "registry_ok (rx_frames rx_init fs)"
    and m: "set (masters (rx_frames rx_init fs)) = set (accepted_sources fs)"
    by (simp_all add: rx_init_def)
  from r have d: "distinct (masters (rx_frames rx_init fs))" by (simp add: registry_ok_def)
  with m have "count_list (masters (rx_frames rx_init fs)) a
      = (if a \<in> set (accepted_sources fs) then 1 else 0)"
    by (simp add: count_list_distinct)
  with r m d show ?thesis by (simp add: registry_ok_def)
qed

theorem registry_one_entry_per_accepted_source_witness:
  "masters (rx_frames rx_init [(frame_X, True, 0), (frame_X, True, 40), (frame_Y, False, 50),
      (frame_Y, True, 70), (frame_Y, True, 90)])
    = [src_addr frame_X, src_addr frame_Y]
   \<and> count_list (masters (rx_frames rx_init [(frame_X, True, 0), (frame_X, True, 40),
        (frame_Y, False, 50), (frame_Y, True, 70), (frame_Y, True, 90)]))
        (src_addr frame_X) = 1"
  using registry_one_entry_per_accepted_source
    [of "[(frame_X, True, 0), (frame_X, True, 40), (frame_Y, False, 50),
          (frame_Y, True, 70), (frame_Y, True, 90)]" "src_addr frame_X"]
  by (simp add: rx_dispatch_def register_new_master_def add_peer_def rx_init_def onReceive_def
        frame_X_def frame_Y_def memcmp6_eq_def BROADCAST_ADDR_def)

text \<open>
  C6. The comparison in \<open>loop\<close> is on the wrapped difference of two 32-bit clock values.
  For a start at any clock value and a poll \<open>e\<close> milliseconds later, \<open>e\<close> below \<open>2^32\<close>,
  the wrapped difference exceeds \<open>BUZZER_DURATION\<close> exactly when \<open>e\<close> exceeds 1000,
  whether or not the clock passed its maximum in between. So after a start the pin stays
  HIGH and the flag set through every poll with \<open>e \<le> 1000\<close> (nothing premature), and
  the first poll with \<open>e > 1000\<close> writes the pin LOW and clears the flag (nothing missed).
  \<open>BUZZER_DURATION\<close> is below half the range.
\<close>

theorem elapsed_wraparound_safe:
  fixes start :: ulong
  assumes "e < 2 ^ 32" and "\<forall>x\<in>set es. x < 2 ^ 32"
  shows "(BUZZER_DURATION < start + of_nat e - start) = (1000 < e)
    \<and> buzzer_active (loop (onReceive s d l b start) (start + of_nat e)) = (e \<le> 1000)
    \<and> buzzer_pin (loop (onReceive s d l b start) (start + of_nat e))
        = (if e \<le> 1000 then HIGH else LOW)
    \<and> buzzer_active (polls (onReceive s d l b start) (map (\<lambda>x. start + of_nat x) es))
        = (\<forall>x\<in>set es. x \<le> 1000)
    \<and> buzzer_pin (polls (onReceive s d l b start) (map (\<lambda>x. start + of_nat x) es))
        = (if \<forall>x\<in>set es. x \<le> 1000 then HIGH else LOW)
    \<and> unat BUZZER_DURATION < 2 ^ 31"
proof -
  let ?s1 = "onReceive s d l b start"
  let ?ts = "map (\<lambda>x. start + of_nat x) es"
  have 1: "(BUZZER_DURATION < start + of_nat e - start) = (1000 < e)"
    using assms(1) by (rule elapsed_unwrapped)
  have 2: "buzzer_active (loop ?s1 (start + of_nat e)) = (e \<le> 1000)"
    using 1 by (auto simp: loop_active onReceive_def not_less [symmetric]
                     simp del: add_diff_cancel_left')
  have "pin_follows_flag (loop ?s1 (start + of_nat e))"
    by (rule pin_follows_flag_loop) (rule pin_follows_flag_onReceive)
  with 2 have 3: "buzzer_pin (loop ?s1 (start + of_nat e)) = (if e \<le> 1000 then HIGH else LOW)"
    by (cases "buzzer_pin (loop ?s1 (start + of_nat e))") (auto simp: pin_follows_flag_def)
  have "\<And>x. x \<in> set es \<Longrightarrow> (start + of_nat x - start \<le> BUZZER_DURATION) = (x \<le> 1000)"
    using elapsed_unwrapped [of _ start] assms(2)
    by (simp add: not_less [symmetric] del: add_diff_cancel_left')
  then have 4: "buzzer_active (polls ?s1 ?ts) = (\<forall>x\<in>set es. x \<le> 1000)"
    by (simp add: polls_active onReceive_def del: add_diff_cancel_left')
  have "pin_follows_flag (polls ?s1 ?ts)"
    by (rule pin_follows_flag_polls) (rule pin_follows_flag_onReceive)
  with 4 have 5: "buzzer_pin (polls ?s1 ?ts)
      = (if \<forall>x\<in>set es. x \<le> 1000 then HIGH else LOW)"
    by (cases "buzzer_pin (polls ?s1 ?ts)") (auto simp: pin_follows_flag_def)
  have 6: "unat BUZZER_DURATION < 2 ^ 31" by (simp add: BUZZER_DURATION_def)
  from 1 2 3 4 5 6 show ?thesis by blast
qed

theorem elapsed_wraparound_safe_witness:
  "buzzer_active (loop (onReceive rx_init [] 0 True 0xFFFFFF00) 744)
   \<and> buzzer_pin (loop (onReceive rx_init [] 0 True 0xFFFFFF00) 744) = HIGH
   \<and> \<not> buzzer_active (loop (onReceive rx_init [] 0 True 0xFFFFFF00) 745)
   \<and> buzzer_pin (loop (onReceive rx_init [] 0 True 0xFFFFFF00) 745) = LOW
   \<and> buzzer_active (polls (onReceive rx_init [] 0 True 0xFFFFFF00)
        [0xFFFFFF0A, 0xFFFFFFFF, 0, 744])
   \<and> buzzer_pin (polls (onReceive rx_init [] 0 True 0xFFFFFF00)
        [0xFFFFFF0A, 0xFFFFFFFF, 0, 744]) = HIGH
   \<and> \<not> buzzer_active (polls (onReceive rx_init [] 0 True 0xFFFFFF00)
        [0xFFFFFF0A, 0xFFFFFFFF, 0, 744, 745])
   \<and> buzzer_pin (polls (onReceive rx_init [] 0 True 0xFFFFFF00)
        [0xFFFFFF0A, 0xFFFFFFFF, 0, 744, 745]) = LOW"
proof -
  have a: "(1000::nat) < 2 ^ 32" "(1001::nat) < 2 ^ 32" by simp_all
  have b: "\<forall>x\<in>set [10, 255, 256, 1000 :: nat]. x < 2 ^ 32"
    "\<forall>x\<in>set [10, 255, 256, 1000, 1001 :: nat]. x < 2 ^ 32" by simp_all
  have w: "(0xFFFFFF00 :: ulong) + of_nat 10 = 0xFFFFFF0A"
    "(0xFFFFFF00 :: ulong) + of_nat 255 = 0xFFFFFFFF"
    "(0xFFFFFF00 :: ulong) + of_nat 256 = 0"
    "(0xFFFFFF00 :: ulong) + of_nat 1000 = 744"
    "(0xFFFFFF00 :: ulong) + of_nat 1001 = 745" by simp_all
  from elapsed_wraparound_safe [OF a(1) b(1), of "0xFFFFFF00" rx_init "[]" 0 True]
       elapsed_wraparound_safe [OF a(2) b(2), of "0xFFFFFF00" rx_init "[]" 0 True]
  show ?thesis unfolding list.map w by simp
qed

text \<open>
  C8. A frame from an unknown source reaches \<open>register_new_master\<close>. When its
  destination is not the broadcast address the \<open>else\<close> branch runs, which only logs: the
  receiver state is returned unchanged, so no peer is added, the masters list stays as
  it is and the timer is not started, whatever the radio would answer to \<open>add()\<close>.
\<close>

theorem unknown_unicast_ignored:
  "\<not> memcmp6_eq (des_addr f) BROADCAST_ADDR \<Longrightarrow>
     register_new_master s f acc now = s
     \<and> masters (register_new_master s f acc now) = masters s
     \<and> peer_table (register_new_master s f acc now) = peer_table s
     \<and> buzzer_timer (register_new_master s f acc now) = buzzer_timer s
     \<and> buzzer_active (register_new_master s f acc now) = buzzer_active s
     \<and> buzzer_pin (register_new_master s f acc now) = buzzer_pin s"
  by (simp add: register_new_master_def)

theorem unknown_unicast_ignored_witness:
  "\<not> memcmp6_eq (des_addr frame_X_unicast) BROADCAST_ADDR
   \<and> src_addr frame_X_unicast \<notin> set (peer_table rx_init)
   \<and> register_new_master rx_init frame_X_unicast True 42 = rx_init
   \<and> masters (register_new_master rx_init frame_X_unicast True 42) = []
   \<and> \<not> buzzer_active (register_new_master rx_init frame_X_unicast True 42)"
proof -
  have a: "\<not> memcmp6_eq (des_addr frame_X_unicast) BROADCAST_ADDR" by simp
  have b: "src_addr frame_X_unicast \<notin> set (peer_table rx_init)" by (simp add: rx_init_def)
  from unknown_unicast_ignored [OF a, of rx_init True 42]
  have "register_new_master rx_init frame_X_unicast True 42 = rx_init" by blast
  with a b show ?thesis by (simp add: rx_init_def)
qed

text \<open>
  C10. \<open>onReceive\<close> writes the pin HIGH, stores the current time and sets the flag
  whatever the payload, its length and the broadcast flag are (they are only printed);
  the masters list and the peer table are not touched. A frame handed to a registered
  peer's handler, broadcast or directed, therefore always starts the buzzer window.
\<close>

theorem onReceive_actuates_any_destination:
  "buzzer_pin (onReceive s d l b now) = HIGH
   \<and> buzzer_timer (onReceive s d l b now) = now
   \<and> buzzer_active (onReceive s d l b now)
   \<and> masters (onReceive s d l b now) = masters s
   \<and> peer_table (onReceive s d l b now) = peer_table s
   \<and> onReceive s d l True now = onReceive s d' l' False now"
  by (simp add: onReceive_def)

theorem onReceive_actuates_any_destination_witness:
  "buzzer_pin (onReceive (register_new_master rx_init frame_X True 0) [0x42] 1 False 700) = HIGH
   \<and> buzzer_timer (onReceive (register_new_master rx_init frame_X True 0) [0x42] 1 False 700)
       = 700
   \<and> buzzer_active (onReceive (register_new_master rx_init frame_X True 0) [0x42] 1 False 700)
   \<and> masters (onReceive (register_new_master rx_init frame_X True 0) [0x42] 1 False 700)
       = [src_addr frame_X]"
  using onReceive_actuates_any_destination
    [of "register_new_master rx_init frame_X True 0" "[0x42]" 1 False 700 "[]" 0]
  by (simp add: register_new_master_def add_peer_def rx_init_def)

subsection \<open>Facts about the transmitter\<close>

lemma tx_loop_fire:
  "lastButtonState st = HIGH \<Longrightarrow>
     tx_loop st LOW ok
       = (\<lparr>msg_count = msg_count st + 1, lastButtonState = LOW\<rparr>,
          Some \<lparr>seq = msg_count st + 1, text_sent = snprintf_data (msg_count st + 1),
                delivered = ok\<rparr>, 250)"
  by (simp add: tx_loop_def Let_def)

lemma tx_loop_quiet:
  "\<not> (lastButtonState st = HIGH \<and> cur = LOW) \<Longrightarrow>
     tx_loop st cur ok = (st\<lparr>lastButtonState := cur\<rparr>, None, 0)"
  by (auto simp: tx_loop_def)

lemma tx_run_done: "T \<le> t \<Longrightarrow> tx_run sig ok T t st = []"
  by (simp add: tx_run.simps)

lemma tx_run_fire:
  "t < T \<Longrightarrow> lastButtonState st = HIGH \<Longrightarrow> sig t = LOW \<Longrightarrow>
     tx_run sig ok T t st
       = (t, \<lparr>seq = msg_count st + 1, text_sent = snprintf_data (msg_count st + 1),
               delivered = ok t\<rparr>)
         # tx_run sig ok T (t + 250) \<lparr>msg_count = msg_count st + 1, lastButtonState = LOW\<rparr>"
  by (subst tx_run.simps) (simp add: tx_loop_fire)

lemma tx_run_quiet:
  "t < T \<Longrightarrow> \<not> (lastButtonState st = HIGH \<and> sig t = LOW) \<Longrightarrow>
     tx_run sig ok T t st = tx_run sig ok T (Suc t) (st\<lparr>lastButtonState := sig t\<rparr>)"
  by (subst tx_run.simps) (simp add: tx_loop_quiet)

lemma tx_run_cases [case_names stop fire quiet]:
  fixes T t :: nat
  assumes "T \<le> t \<Longrightarrow> P"
    and "t < T \<Longrightarrow> lastButtonState st = HIGH \<Longrightarrow> sig t = LOW \<Longrightarrow> P"
    and "t < T \<Longrightarrow> \<not> (lastButtonState st = HIGH \<and> sig t = LOW) \<Longrightarrow> P"
  shows P
  using assms by (cases "T \<le> t") auto

lemma tx_run_times:
  "(u, a) \<in> set (tx_run sig ok T t st) \<Longrightarrow> t \<le> u \<and> u < T"
proof (induction sig ok T t st rule: tx_run.induct)
  case (1 sig ok T t st)
  show ?case
  proof (rule tx_run_cases [where T=T and t=t and st=st and sig=sig], goal_cases stop fire quiet)
    case stop
    with "1.prems" show ?thesis by (simp add: tx_run_done)
  next
    case fire
    with "1.prems" have "(u, a) = (t, \<lparr>seq = msg_count st + 1,
        text_sent = snprintf_data (msg_count st + 1), delivered = ok t\<rparr>)
      \<or> (u, a) \<in> set (tx_run sig ok T (t + 250) \<lparr>msg_count = msg_count st + 1, lastButtonState = LOW\<rparr>)"
      by (simp add: tx_run_fire)
    then show ?thesis
    proof
      assume "(u, a) = (t, \<lparr>seq = msg_count st + 1,
        text_sent = snprintf_data (msg_count st + 1), delivered = ok t\<rparr>)"
      with fire show ?thesis by simp
    next
      assume m: "(u, a) \<in> set (tx_run sig ok T (t + 250) \<lparr>msg_count = msg_count st + 1, lastButtonState = LOW\<rparr>)"
      from fire have "\<not> T \<le> t" by simp
      from "1.IH" [OF this refl] m fire show ?thesis by (simp add: tx_loop_fire)
    qed
  next
    case quiet
    with "1.prems" have m: "(u, a) \<in> set (tx_run sig ok T (Suc t) (st\<lparr>lastButtonState := sig t\<rparr>))"
      by (simp add: tx_run_quiet)
    from quiet have "\<not> T \<le> t" by simp
    from "1.IH" [OF this refl] m quiet show ?thesis by (simp add: tx_loop_quiet)
  qed
qed

lemma debounced_Cons:
  "debounced (a # ts) = ((\<forall>b\<in>set (take 1 ts). a + 250 \<le> b) \<and> debounced ts)"
  by (cases ts) simp_all

lemma tx_run_debounced: "debounced (map fst (tx_run sig ok T t st))"
proof (induction sig ok T t st rule: tx_run.induct)
  case (1 sig ok T t st)
  show ?case
  proof (rule tx_run_cases [where T=T and t=t and st=st and sig=sig], goal_cases stop fire quiet)
    case stop
    then show ?case by (simp add: tx_run_done)
  next
    case fire
    let ?rest = "tx_run sig ok T (t + 250) \<lparr>msg_count = msg_count st + 1, lastButtonState = LOW\<rparr>"
    from fire have "\<not> T \<le> t" by simp
    from "1.IH" [OF this refl] fire have d: "debounced (map fst ?rest)"
      by (simp add: tx_loop_fire)
    have "\<forall>b\<in>set (take 1 (map fst ?rest)). t + 250 \<le> b"
    proof
      fix b assume "b \<in> set (take 1 (map fst ?rest))"
      then have "b \<in> set (map fst ?rest)" by (rule in_set_takeD)
      then obtain a where "(b, a) \<in> set ?rest" by auto
      then show "t + 250 \<le> b" using tx_run_times by blast
    qed
    with d fire show ?case by (simp add: tx_run_fire debounced_Cons del: take_map)
  next
    case quiet
    from quiet have "\<not> T \<le> t" by simp
    from "1.IH" [OF this refl] quiet show ?case by (simp add: tx_loop_quiet tx_run_quiet)
  qed
qed

lemma tx_run_no_edge:
  "\<forall>u\<ge>t0. sig u = HIGH \<longrightarrow> sig (Suc u) = HIGH \<Longrightarrow> t0 \<le> t \<Longrightarrow>
     lastButtonState st = HIGH \<longrightarrow> sig t = HIGH \<Longrightarrow> tx_run sig ok T t st = []"
proof (induction sig ok T t st rule: tx_run.induct)
  case (1 sig ok T t st)
  show ?case
  proof (rule tx_run_cases [where T=T and t=t and st=st and sig=sig], goal_cases stop fire quiet)
    case stop
    then show ?case by (simp add: tx_run_done)
  next
    case fire
    with "1.prems" show ?case by simp
  next
    case quiet
    from quiet have nT: "\<not> T \<le> t" by simp
    from "1.prems"(1,2) have "sig t = HIGH \<longrightarrow> sig (Suc t) = HIGH" by simp
    then have "tx_run sig ok T (Suc t) (st\<lparr>lastButtonState := sig t\<rparr>) = []"
      using "1.IH" [OF nT refl] quiet "1.prems"(1,2) by (simp add: tx_loop_quiet)
    with quiet show ?case by (simp add: tx_run_quiet)
  qed
qed

lemma tx_run_seq:
  "map (\<lambda>p. seq (snd p)) (tx_run sig ok T t st)
     = map (\<lambda>i. msg_count st + of_nat i) [1..<Suc (length (tx_run sig ok T t st))]"
proof (induction sig ok T t st rule: tx_run.induct)
  case (1 sig ok T t st)
  show ?case
  proof (rule tx_run_cases [where T=T and t=t and st=st and sig=sig], goal_cases stop fire quiet)
    case stop
    then show ?case by (simp add: tx_run_done)
  next
    case fire
    let ?st = "\<lparr>msg_count = msg_count st + 1, lastButtonState = LOW\<rparr>"
    let ?rest = "tx_run sig ok T (t + 250) ?st"
    from fire have "\<not> T \<le> t" by simp
    from "1.IH" [OF this refl] fire
    have ih: "map (\<lambda>p. seq (snd p)) ?rest
        = map (\<lambda>i. msg_count st + 1 + of_nat i) [1..<Suc (length ?rest)]"
      by (simp add: tx_loop_fire)
    have "[1..<Suc (Suc (length ?rest))] = 1 # map Suc [1..<Suc (length ?rest)]"
      by (simp add: upt_conv_Cons map_Suc_upt del: upt_Suc)
    then have "map (\<lambda>i. msg_count st + of_nat i) [1..<Suc (Suc (length ?rest))]
        = (msg_count st + 1) # map (\<lambda>i. msg_count st + 1 + of_nat i) [1..<Suc (length ?rest)]"
      by (simp add: comp_def add.assoc del: upt_Suc)
    with ih fire show ?case by (simp add: tx_run_fire del: upt_Suc)
  next
    case quiet
    from quiet have "\<not> T \<le> t" by simp
    from "1.IH" [OF this refl] quiet show ?case by (simp add: tx_loop_quiet tx_run_quiet)
  qed
qed

lemma tx_run_ok_indep:
  "map (\<lambda>p. (fst p, seq (snd p), text_sent (snd p))) (tx_run sig ok T t st)
     = map (\<lambda>p. (fst p, seq (snd p), text_sent (snd p))) (tx_run sig ok' T t st)"
proof (induction sig ok T t st rule: tx_run.induct)
  case (1 sig ok T t st)
  show ?case
  proof (rule tx_run_cases [where T=T and t=t and st=st and sig=sig], goal_cases stop fire quiet)
    case stop
    then show ?case by (simp add: tx_run_done)
  next
    case fire
    from fire have "\<not> T \<le> t" by simp
    from "1.IH" [OF this refl] fire show ?case by (simp add: tx_loop_fire tx_run_fire)
  next
    case quiet
    from quiet have "\<not> T \<le> t" by simp
    from "1.IH" [OF this refl] quiet show ?case by (simp add: tx_loop_quiet tx_run_quiet)
  qed
qed

lemma snprintf_1: "snprintf_data 1 = ''Button Pressed! #1''"
  by (simp add: snprintf_data_def show_dec.simps digit_char_def char_of_eq_iff)

lemma snprintf_2: "snprintf_data 2 = ''Button Pressed! #2''"
  by (simp add: snprintf_data_def show_dec.simps digit_char_def char_of_eq_iff)

lemma bouncy_edges: "\<forall>u. bouncy u = HIGH \<and> bouncy (Suc u) = LOW \<longrightarrow> Suc u = 50"
  by (auto simp: bouncy_def split: if_splits)

lemma press_twice_run:
  "tx_run press_twice ok 300 0 tx_init
     = [(0, \<lparr>seq = 1, text_sent = ''Button Pressed! #1'', delivered = ok 0\<rparr>),
        (251, \<lparr>seq = 2, text_sent = ''Button Pressed! #2'', delivered = ok 251\<rparr>)]"
proof -
  let ?s1 = "\<lparr>msg_count = 1, lastButtonState = LOW\<rparr>"
  let ?s2 = "\<lparr>msg_count = 1, lastButtonState = HIGH\<rparr>"
  let ?s3 = "\<lparr>msg_count = 2, lastButtonState = LOW\<rparr>"
  have 1: "tx_run press_twice ok 300 0 tx_init
      = (0, \<lparr>seq = 1, text_sent = ''Button Pressed! #1'', delivered = ok 0\<rparr>)
        # tx_run press_twice ok 300 250 ?s1"
    using tx_run_fire [of 0 300 tx_init press_twice ok]
    by (simp add: tx_init_def press_twice_def snprintf_1)
  have 2: "tx_run press_twice ok 300 250 ?s1 = tx_run press_twice ok 300 251 ?s2"
    using tx_run_quiet [of 250 300 ?s1 press_twice ok] by (simp add: press_twice_def)
  have 3: "tx_run press_twice ok 300 251 ?s2
      = (251, \<lparr>seq = 2, text_sent = ''Button Pressed! #2'', delivered = ok 251\<rparr>)
        # tx_run press_twice ok 300 501 ?s3"
    using tx_run_fire [of 251 300 ?s2 press_twice ok]
    by (simp add: press_twice_def snprintf_2)
  have 4: "tx_run press_twice ok 300 501 ?s3 = []" by (simp add: tx_run_done)
  from 1 2 3 4 show ?thesis by simp
qed

subsection \<open>Claims about the transmitter\<close>

text \<open>
  C5. The pin falls at 0 and, after a bounce, again at 50. The iteration at 0 sends the
  message numbered 1 and then blocks in \<open>delay(250)\<close>; the pin is not read again before
  250, so the fall at 50 is never seen as an edge. Up to any time within the debounce
  window, and up to any time at all when the pin has no further falling edge, exactly one
  send is attempted. In every run, two consecutive sends are at least 250 ms apart.
\<close>

theorem debounce_single_message:
  assumes "sig 0 = LOW" and "sig 49 = HIGH" and "sig 50 = LOW" and "0 < T"
    and "T \<le> 250 \<or> (\<forall>u. sig u = HIGH \<and> sig (Suc u) = LOW \<longrightarrow> Suc u = 50)"
  shows "tx_run sig ok T 0 tx_init
           = [(0, \<lparr>seq = 1, text_sent = ''Button Pressed! #1'', delivered = ok 0\<rparr>)]
         \<and> debounced (map fst (tx_run sig ok T' 0 tx_init))"
proof -
  let ?st = "\<lparr>msg_count = msg_count tx_init + 1, lastButtonState = LOW\<rparr>"
  have "tx_run sig ok T 250 ?st = []"
  proof (cases "T \<le> 250")
    case True
    then show ?thesis by (rule tx_run_done)
  next
    case False
    with assms(5) have "\<forall>u\<ge>50. sig u = HIGH \<longrightarrow> sig (Suc u) = HIGH"
      by (metis level.exhaust Suc_n_not_le_n)
    from tx_run_no_edge [OF this, of 250 ?st ok T] show ?thesis by simp
  qed
  with tx_run_fire [of 0 T tx_init sig ok] assms(1,4)
  have "tx_run sig ok T 0 tx_init
           = [(0, \<lparr>seq = 1, text_sent = ''Button Pressed! #1'', delivered = ok 0\<rparr>)]"
    by (simp add: tx_init_def snprintf_1)
  then show ?thesis by (simp add: tx_run_debounced)
qed

theorem debounce_single_message_witness:
  "bouncy 0 = LOW \<and> bouncy 19 = LOW \<and> bouncy 20 = HIGH \<and> bouncy 49 = HIGH \<and> bouncy 50 = LOW
   \<and> tx_run bouncy (\<lambda>u. True) 1000 0 tx_init
       = [(0, \<lparr>seq = 1, text_sent = ''Button Pressed! #1'', delivered = True\<rparr>)]"
proof -
  have a: "bouncy 0 = LOW" "bouncy 49 = HIGH" "bouncy 50 = LOW" "bouncy 19 = LOW" "bouncy 20 = HIGH"
    by (simp_all add: bouncy_def)
  have b: "(0::nat) < 1000" by simp
  have c: "(1000::nat) \<le> 250 \<or> (\<forall>u. bouncy u = HIGH \<and> bouncy (Suc u) = LOW \<longrightarrow> Suc u = 50)"
    using bouncy_edges by blast
  from debounce_single_message [OF a(1) a(2) a(3) b c, of "\<lambda>u. True"] a show ?thesis by simp
qed

text \<open>
  C7. \<open>msg_count\<close> is a 32-bit unsigned counter that starts at 0 and is incremented
  before it is formatted into the message: the first message carries 1, every
  iteration that sees a press adds exactly one and every other iteration leaves it
  alone, so the messages of a run are numbered 1, 2, 3, ... in order; from \<open>0xFFFFFFFF\<close>
  the next value is 0.
\<close>

theorem msg_count_sequence:
  "msg_count tx_init = 0
   \<and> fst (snd (tx_loop tx_init LOW ok))
       = Some \<lparr>seq = 1, text_sent = ''Button Pressed! #1'', delivered = ok\<rparr>
   \<and> (lastButtonState st = HIGH \<and> cur = LOW \<longrightarrow>
        msg_count (fst (tx_loop st cur ok)) = msg_count st + 1
        \<and> fst (snd (tx_loop st cur ok))
            = Some \<lparr>seq = msg_count st + 1, text_sent = snprintf_data (msg_count st + 1),
                    delivered = ok\<rparr>)
   \<and> (\<not> (lastButtonState st = HIGH \<and> cur = LOW) \<longrightarrow>
        msg_count (fst (tx_loop st cur ok)) = msg_count st \<and> fst (snd (tx_loop st cur ok)) = None)
   \<and> unat (msg_count st + 1)
       = (if msg_count st = 0xFFFFFFFF then 0 else unat (msg_count st) + 1)
   \<and> map (\<lambda>p. seq (snd p)) (tx_run sig oks T 0 tx_init)
       = map of_nat [1..<Suc (length (tx_run sig oks T 0 tx_init))]"
proof -
  have w: "unat (msg_count st + 1)
       = (if msg_count st = 0xFFFFFFFF then 0 else unat (msg_count st) + 1)"
  proof (cases "msg_count st = 0xFFFFFFFF")
    case True
    then show ?thesis by simp
  next
    case False
    have "(0xFFFFFFFF :: 32 word) = - 1" by simp
    with False have "1 + msg_count st \<noteq> 0" by (simp add: add_eq_0_iff)
    then have "unat (1 + msg_count st) = Suc (unat (msg_count st))" by (rule unatSuc)
    with False show ?thesis by (simp add: add.commute)
  qed
  have r: "map (\<lambda>p. seq (snd p)) (tx_run sig oks T 0 tx_init)
       = map of_nat [1..<Suc (length (tx_run sig oks T 0 tx_init))]"
    using tx_run_seq [of sig oks T 0 tx_init] by (simp add: tx_init_def del: upt_Suc)
  have f: "fst (snd (tx_loop tx_init LOW ok))
       = Some \<lparr>seq = 1, text_sent = ''Button Pressed! #1'', delivered = ok\<rparr>"
    by (simp add: tx_loop_fire tx_init_def snprintf_1)
  from w r f show ?thesis by (auto simp: tx_loop_fire tx_loop_quiet tx_init_def)
qed

theorem msg_count_sequence_witness:
  "lastButtonState \<lparr>msg_count = 0xFFFFFFFF, lastButtonState = HIGH\<rparr> = HIGH
   \<and> msg_count (fst (tx_loop \<lparr>msg_count = 0xFFFFFFFF, lastButtonState = HIGH\<rparr> LOW True)) = 0
   \<and> msg_count (fst (tx_loop \<lparr>msg_count = 7, lastButtonState = HIGH\<rparr> LOW True)) = 8
   \<and> msg_count (fst (tx_loop \<lparr>msg_count = 7, lastButtonState = LOW\<rparr> LOW True)) = 7
   \<and> map (\<lambda>p. seq (snd p)) (tx_run press_twice (\<lambda>u. True) 300 0 tx_init) = [1, 2]"
  using msg_count_sequence [of True "\<lparr>msg_count = 0xFFFFFFFF, lastButtonState = HIGH\<rparr>" LOW
          press_twice "\<lambda>u. True" 300]
    msg_count_sequence [of True "\<lparr>msg_count = 7, lastButtonState = HIGH\<rparr>" LOW]
    msg_count_sequence [of True "\<lparr>msg_count = 7, lastButtonState = LOW\<rparr>" LOW]
  by (simp add: press_twice_run)

text \<open>
  C9. What \<open>send_message\<close> returns is only logged: the state after the iteration and the
  time spent in \<open>delay\<close> are the same for a failed and a successful send, so a run makes
  the same attempts, at the same times and with the same numbers, whatever the radio
  answers. After a failed send, the next HIGH then LOW reading attempts the next message.
\<close>

theorem send_failure_keeps_state_machine:
  "fst (tx_loop st cur False) = fst (tx_loop st cur True)
   \<and> snd (snd (tx_loop st cur False)) = snd (snd (tx_loop st cur True))
   \<and> map (\<lambda>p. (fst p, seq (snd p), text_sent (snd p))) (tx_run sig ok T t st)
       = map (\<lambda>p. (fst p, seq (snd p), text_sent (snd p))) (tx_run sig ok' T t st)
   \<and> (lastButtonState st = HIGH \<longrightarrow>
        fst (snd (tx_loop (fst (tx_loop (fst (tx_loop st LOW False)) HIGH ok1)) LOW ok2))
          = Some \<lparr>seq = msg_count st + 2, text_sent = snprintf_data (msg_count st + 2),
                  delivered = ok2\<rparr>)"
proof -
  have a: "fst (tx_loop st cur False) = fst (tx_loop st cur True)
     \<and> snd (snd (tx_loop st cur False)) = snd (snd (tx_loop st cur True))"
    by (simp add: tx_loop_def Let_def)
  have b: "lastButtonState st = HIGH \<longrightarrow>
        fst (snd (tx_loop (fst (tx_loop (fst (tx_loop st LOW False)) HIGH ok1)) LOW ok2))
          = Some \<lparr>seq = msg_count st + 2, text_sent = snprintf_data (msg_count st + 2),
                  delivered = ok2\<rparr>"
    by (simp add: tx_loop_def Let_def add.commute)
  from a b tx_run_ok_indep [of sig ok T t st ok'] show ?thesis by simp
qed

theorem send_failure_keeps_state_machine_witness:
  "lastButtonState tx_init = HIGH
   \<and> fst (tx_loop tx_init LOW False) = \<lparr>msg_count = 1, lastButtonState = LOW\<rparr>
   \<and> fst (tx_loop tx_init LOW True) = \<lparr>msg_count = 1, lastButtonState = LOW\<rparr>
   \<and> fst (snd (tx_loop (fst (tx_loop (fst (tx_loop tx_init LOW False)) HIGH True)) LOW True))
       = Some \<lparr>seq = 2, text_sent = ''Button Pressed! #2'', delivered = True\<rparr>
   \<and> map (\<lambda>p. (fst p, seq (snd p), text_sent (snd p)))
        (tx_run press_twice (\<lambda>u. False) 300 0 tx_init)
       = [(0, 1, ''Button Pressed! #1''), (251, 2, ''Button Pressed! #2'')]"
  using send_failure_keeps_state_machine
          [of tx_init LOW press_twice "\<lambda>u. False" 300 0 "\<lambda>u. True" True True]
  unfolding press_twice_run
  by (simp add: tx_init_def tx_loop_fire snprintf_1 snprintf_2)

end
